theory Spec2Isabelle
  imports Complex_Main "HOL-Library.Sublist"
begin

section \<open>Python values used by the session manager\<close>

text \<open>
  A Python \<open>str\<close> is modelled as a \<open>string\<close>; a character beyond ASCII is carried as the
  bytes of its UTF-8 encoding, which leaves substring containment between well-formed
  texts unchanged. A Python \<open>float\<close> is modelled by the rational number it stands for;
  quotients and products are the exact ones, and the rounding to two decimals, whose
  result depends on the binary rounding error of the machine arithmetic, is an argument
  of the operations that call it.
  Counters, capacities and slice bounds are Python integers, hence \<open>int\<close>.
\<close>

text \<open>The slices \<open>xs[i:]\<close> and \<open>xs[:j]\<close>: a negative bound counts from the end, and
  every bound is clamped to the list.\<close>

definition py_slice_from :: "'a list \<Rightarrow> int \<Rightarrow> 'a list" where
  "py_slice_from xs i =
     (if i < 0 then drop (nat (int (length xs) + i)) xs else drop (nat i) xs)"

definition py_slice_to :: "'a list \<Rightarrow> int \<Rightarrow> 'a list" where
  "py_slice_to xs j =
     (if j < 0 then take (nat (int (length xs) + j)) xs else take (nat j) xs)"

text \<open>The operator \<open>sub in s\<close> on two texts is containment as a contiguous block.\<close>

definition py_in :: "string \<Rightarrow> string \<Rightarrow> bool" where
  "py_in sub s = sublist sub s"

definition newline :: string where
  "newline = [CHR 0x0A]"

section \<open>memory.py: the conversation memory\<close>

record history_entry =
  role :: string
  message :: string

text \<open>The attribute \<open>session_start\<close> of the memory is set to \<open>None\<close> by the constructor
  and never read or written again; it is left out.\<close>

record conversation_memory =
  max_history :: int
  history :: "history_entry list"
  user_level :: "string option"

definition init_memory :: "int \<Rightarrow> conversation_memory" where
  "init_memory mh = \<lparr>max_history = mh, history = [], user_level = None\<rparr>"

definition add_message :: "string \<Rightarrow> string \<Rightarrow> conversation_memory \<Rightarrow> conversation_memory" where
  "add_message r msg m =
     (let h = history m @ [\<lparr>role = r, message = msg\<rparr>] in
      if int (length h) > max_history m * 2
      then m\<lparr>history := py_slice_from h (- max_history m * 2)\<rparr>
      else m\<lparr>history := h\<rparr>)"

definition role_name :: "history_entry \<Rightarrow> string" where
  "role_name msg = (if role msg = ''user'' then ''User'' else ''BhashaVox AI'')"

definition history_line :: "history_entry \<Rightarrow> string" where
  "history_line msg = role_name msg @ '': '' @ message msg @ newline"

definition get_history_string :: "conversation_memory \<Rightarrow> string" where
  "get_history_string m =
     (if history m = [] then ''''
      else fold (\<lambda>msg history_str. history_str @ history_line msg) (history m) '''')"

definition get_recent_messages :: "int \<Rightarrow> conversation_memory \<Rightarrow> history_entry list" where
  "get_recent_messages n m = (if history m \<noteq> [] then py_slice_from (history m) (- n) else [])"

definition set_user_level :: "string \<Rightarrow> conversation_memory \<Rightarrow> conversation_memory" where
  "set_user_level level m = m\<lparr>user_level := Some level\<rparr>"

definition get_user_level :: "conversation_memory \<Rightarrow> string option" where
  "get_user_level m = user_level m"

definition clear_history :: "conversation_memory \<Rightarrow> conversation_memory" where
  "clear_history m = m\<lparr>history := []\<rparr>"

definition get_conversation_count :: "conversation_memory \<Rightarrow> int" where
  "get_conversation_count m = int (length (filter (\<lambda>msg. role msg = ''user'') (history m)))"

text \<open>A run of \<open>add_message\<close> calls, one per (role, text) pair, oldest first.\<close>

definition add_messages :: "(string \<times> string) list \<Rightarrow> conversation_memory \<Rightarrow> conversation_memory" where
  "add_messages calls m = fold (\<lambda>(r, msg). add_message r msg) calls m"

definition entry_of :: "string \<times> string \<Rightarrow> history_entry" where
  "entry_of c = \<lparr>role = fst c, message = snd c\<rparr>"

text \<open>The transcript as the specification words it: every turn rendered as
  display name, colon, text, and the renderings joined by newlines.\<close>

fun join_with :: "string \<Rightarrow> string list \<Rightarrow> string" where
  "join_with sep [] = ''''"
| "join_with sep [x] = x"
| "join_with sep (x # y # ys) = x @ sep @ join_with sep (y # ys)"

definition render_history_joined :: "history_entry list \<Rightarrow> string" where
  "render_history_joined h = join_with newline (map (\<lambda>t. role_name t @ '': '' @ message t) h)"

section \<open>analytics.py: the analytics tracker\<close>

datatype py_error = ZeroDivisionError

text \<open>True division \<open>a / b\<close> of two integers raises on a zero divisor.\<close>

definition py_truediv :: "int \<Rightarrow> int \<Rightarrow> py_error + rat" where
  "py_truediv a b = (if b = 0 then Inl ZeroDivisionError else Inr (of_int a / of_int b))"

text \<open>\<open>round(x, 2)\<close>. The code rounds a binary float, and when the decimal value lies
  halfway between two hundredths, the neighbour it returns depends on the error of the
  float arithmetic before it. The rounding is therefore an argument \<open>round2\<close> of the
  operations that call it, a function of the exact value of what they round. What a
  theorem needs of it is assumed there, for the value \<open>x\<close> that is rounded: the result
  is a multiple of one hundredth at a distance of at most 1/200 from \<open>x\<close>.\<close>

definition nearest_hundredth :: "rat \<Rightarrow> rat \<Rightarrow> bool" where
  "nearest_hundredth x h \<longleftrightarrow> of_int \<lfloor>h * 100\<rfloor> = h * 100 \<and> \<bar>h - x\<bar> \<le> 1 / 200"

text \<open>One such rounding, an exact tie going to the even neighbour. The operations are
  run with it on concrete states; away from an exact tie every rounding to the nearest
  hundredth returns the same value.\<close>

definition round_half_even :: "rat \<Rightarrow> int" where
  "round_half_even x =
     (let f = \<lfloor>x\<rfloor>; d = x - of_int f in
      if d < 1 / 2 then f
      else if 1 / 2 < d then f + 1
      else if even f then f else f + 1)"

definition round2_half_even :: "rat \<Rightarrow> rat" where
  "round2_half_even x = of_int (round_half_even (x * 100)) / 100"

text \<open>A \<open>dict\<close> keeps its keys in the order of their first insertion; it is modelled as an
  association list with distinct keys. Storing under a present key keeps its place,
  storing under a new key appends.\<close>

fun dict_set :: "'k \<Rightarrow> 'v \<Rightarrow> ('k \<times> 'v) list \<Rightarrow> ('k \<times> 'v) list" where
  "dict_set k v [] = [(k, v)]"
| "dict_set k v ((k', v') # d) = (if k' = k then (k', v) # d else (k', v') # dict_set k v d)"

text \<open>\<open>d[k] += 1\<close> on a \<open>defaultdict(int)\<close>: a missing key reads as 0.\<close>

definition defaultdict_incr :: "'k \<Rightarrow> ('k \<times> int) list \<Rightarrow> ('k \<times> int) list" where
  "defaultdict_incr k d = dict_set k ((case map_of d k of None \<Rightarrow> 0 | Some v \<Rightarrow> v) + 1) d"

text \<open>\<open>dict(pairs)\<close> stores the pairs one after the other.\<close>

definition py_dict :: "('k \<times> 'v) list \<Rightarrow> ('k \<times> 'v) list" where
  "py_dict pairs = fold (\<lambda>(k, v). dict_set k v) pairs []"

text \<open>\<open>sorted(items, key=lambda x: x[1], reverse=True)\<close>: a stable sort by decreasing
  count, items of equal count keeping the order they had.\<close>

definition sorted_by_count_reverse :: "('k \<times> int) list \<Rightarrow> ('k \<times> int) list" where
  "sorted_by_count_reverse items = sort_key (\<lambda>x. - snd x) items"

text \<open>Times are readings of the clock in seconds; every call of \<open>datetime.now()\<close> is an
  argument \<open>now\<close> of the operation that makes it.\<close>

record mistake =
  timestamp :: rat
  original :: string
  corrected :: string
  category :: string

record analytics_tracker =
  mistakes :: "mistake list"
  corrections_made :: int
  total_messages :: int
  mistake_categories :: "(string \<times> int) list"
  session_start :: rat

definition init_analytics :: "rat \<Rightarrow> analytics_tracker" where
  "init_analytics now =
     \<lparr>mistakes = [], corrections_made = 0, total_messages = 0,
      mistake_categories = [], session_start = now\<rparr>"

definition log_mistake ::
  "rat \<Rightarrow> string \<Rightarrow> string \<Rightarrow> string \<Rightarrow> analytics_tracker \<Rightarrow> analytics_tracker" where
  "log_mistake now orig corr cat a =
     a\<lparr>mistakes := mistakes a @
          [\<lparr>timestamp = now, original = orig, corrected = corr, category = cat\<rparr>],
       corrections_made := corrections_made a + 1,
       mistake_categories := defaultdict_incr cat (mistake_categories a)\<rparr>"

definition log_message :: "analytics_tracker \<Rightarrow> analytics_tracker" where
  "log_message a = a\<lparr>total_messages := total_messages a + 1\<rparr>"

definition get_accuracy_rate :: "(rat \<Rightarrow> rat) \<Rightarrow> analytics_tracker \<Rightarrow> py_error + rat" where
  "get_accuracy_rate round2 a =
     (if total_messages a = 0 then Inr 100
      else
        (let messages_with_mistakes = int (length (mistakes a)) in
         case py_truediv (total_messages a - messages_with_mistakes) (total_messages a) of
           Inl e \<Rightarrow> Inl e
         | Inr q \<Rightarrow> Inr (round2 (q * 100))))"

text \<open>The share that the specification words: 100 (total - mistakes) / total.\<close>

definition accuracy_share :: "analytics_tracker \<Rightarrow> rat" where
  "accuracy_share a =
     of_int (total_messages a - int (length (mistakes a))) / of_int (total_messages a) * 100"

definition get_common_mistakes :: "int \<Rightarrow> analytics_tracker \<Rightarrow> (string \<times> int) list" where
  "get_common_mistakes top_n a =
     py_slice_to (sorted_by_count_reverse (mistake_categories a)) top_n"

record session_summary =
  summary_total_messages :: int
  summary_corrections_made :: int
  summary_accuracy_rate :: rat
  summary_session_duration_minutes :: rat
  summary_common_mistakes :: "(string \<times> int) list"
  summary_total_mistake_types :: int

text \<open>The summary rounds twice, the rate inside \<open>get_accuracy_rate\<close> and the duration
  here. The float computations before the two calls differ, so each call has its own
  argument: \<open>round2\<close> for the rate and \<open>round2_duration\<close> for the duration.\<close>

definition get_session_summary ::
  "(rat \<Rightarrow> rat) \<Rightarrow> (rat \<Rightarrow> rat) \<Rightarrow> rat \<Rightarrow> analytics_tracker \<Rightarrow> py_error + session_summary" where
  "get_session_summary round2 round2_duration now a =
     (let session_duration = (now - session_start a) / 60 in
      case get_accuracy_rate round2 a of
        Inl e \<Rightarrow> Inl e
      | Inr rate \<Rightarrow>
          Inr \<lparr>summary_total_messages = total_messages a,
               summary_corrections_made = corrections_made a,
               summary_accuracy_rate = rate,
               summary_session_duration_minutes = round2_duration session_duration,
               summary_common_mistakes = py_dict (get_common_mistakes 5 a),
               summary_total_mistake_types = int (length (mistake_categories a))\<rparr>)"

definition get_recent_mistakes :: "int \<Rightarrow> analytics_tracker \<Rightarrow> mistake list" where
  "get_recent_mistakes n a = (if mistakes a \<noteq> [] then py_slice_from (mistakes a) (- n) else [])"

definition reset_session :: "rat \<Rightarrow> analytics_tracker \<Rightarrow> analytics_tracker" where
  "reset_session now a =
     a\<lparr>mistakes := [], corrections_made := 0, total_messages := 0,
       mistake_categories := [], session_start := now\<rparr>"

text \<open>A run of calls on one tracker, oldest first.\<close>

datatype analytics_call =
    LogMessage
  | LogMistake rat string string string
  | ResetSession rat

fun run_call :: "analytics_call \<Rightarrow> analytics_tracker \<Rightarrow> analytics_tracker" where
  "run_call LogMessage a = log_message a"
| "run_call (LogMistake now orig corr cat) a = log_mistake now orig corr cat a"
| "run_call (ResetSession now) a = reset_session now a"

definition run_calls :: "analytics_call list \<Rightarrow> analytics_tracker \<Rightarrow> analytics_tracker" where
  "run_calls calls a = fold run_call calls a"

text \<open>The state of a tracker built at time \<open>t0\<close> after the calls.\<close>

definition tracker_after :: "rat \<Rightarrow> analytics_call list \<Rightarrow> analytics_tracker" where
  "tracker_after t0 calls = run_calls calls (init_analytics t0)"

text \<open>The categories of the mistakes logged since the last reset, oldest first.\<close>

definition category_log :: "analytics_tracker \<Rightarrow> string list" where
  "category_log a = map category (mistakes a)"

text \<open>The position at which a category first occurs in such a log, and the ranking the
  specification words: a larger count comes first, and of two equal counts the category
  that occurred first.\<close>

definition first_index :: "'k list \<Rightarrow> 'k \<Rightarrow> nat" where
  "first_index cs c = length (takeWhile (\<lambda>d. d \<noteq> c) cs)"

definition ranks_before :: "'k list \<Rightarrow> 'k \<times> int \<Rightarrow> 'k \<times> int \<Rightarrow> bool" where
  "ranks_before cs p q \<longleftrightarrow>
     snd q < snd p \<or> (snd p = snd q \<and> first_index cs (fst p) < first_index cs (fst q))"

definition first_occurrences :: "'k list \<Rightarrow> 'k list" where
  "first_occurrences cs = rev (remdups (rev cs))"

definition counted :: "'k list \<Rightarrow> 'k \<Rightarrow> 'k \<times> int" where
  "counted cs c = (c, int (count_list cs c))"

section \<open>prompts.py: the prompt templates\<close>



definition create_level_assessment_prompt :: "string \<Rightarrow> string" where
  "create_level_assessment_prompt user_message =
     ''Based on this message, assess the user's English proficiency level (Beginner/Intermediate/Advanced).'' @ newline @
     ''Consider grammar, vocabulary, and sentence structure.'' @ newline @
     newline @
     ''User message: '' @ [CHR 0x22] @ user_message @ [CHR 0x22] @ newline @
     newline @
     ''Respond with only: Beginner, Intermediate, or Advanced''"

section \<open>ai_engine.py: the engine\<close>

subsection \<open>Texts\<close>

text \<open>\<open>str(n)\<close> of an integer: its decimal digits, after a minus sign if it is negative.\<close>

definition digit_char :: "nat \<Rightarrow> char" where
  "digit_char d = char_of (48 + d)"

fun str_nat :: "nat \<Rightarrow> string" where
  "str_nat n = (if n < 10 then [digit_char n] else str_nat (n div 10) @ [digit_char (n mod 10)])"

declare str_nat.simps [simp del]

definition py_str_int :: "int \<Rightarrow> string" where
  "py_str_int i = (if i < 0 then CHR ''-'' # str_nat (nat (- i)) else str_nat (nat i))"

text \<open>\<open>s.lower()\<close> and \<open>s.strip()\<close>. The letters \<open>A\<close> to \<open>Z\<close> are mapped to \<open>a\<close> to \<open>z\<close> and the
  ASCII whitespace is stripped at both ends; the bytes of a character beyond ASCII are
  left as they are, so the case mapping and the whitespace of the rest of Unicode are
  not part of the model.\<close>

definition lower_char :: "char \<Rightarrow> char" where
  "lower_char c =
     (let n = (of_char c :: nat) in if 65 \<le> n \<and> n \<le> 90 then char_of (n + 32) else c)"

definition py_lower :: "string \<Rightarrow> string" where
  "py_lower s = map lower_char s"

definition is_space :: "char \<Rightarrow> bool" where
  "is_space c = (let n = (of_char c :: nat) in (9 \<le> n \<and> n \<le> 13) \<or> (28 \<le> n \<and> n \<le> 32))"

definition strip_with :: "(char \<Rightarrow> bool) \<Rightarrow> string \<Rightarrow> string" where
  "strip_with P s = rev (dropWhile P (rev (dropWhile P s)))"

definition py_strip :: "string \<Rightarrow> string" where
  "py_strip s = strip_with is_space s"


subsection \<open>The inference request\<close>

text \<open>What the \<open>try\<close> block of \<open>call_ollama\<close> can raise, by the handler that catches it:
  \<open>ConnectionError\<close> for the first handler, \<open>Timeout\<close> for the second, and any other
  exception, which carries the text \<open>str(e)\<close>, for the last.\<close>

datatype request_exception =
    ConnectionError
  | Timeout
  | OtherException string

text \<open>The arguments of \<open>requests.post\<close>.\<close>

record generate_request =
  request_url :: string
  request_model :: string
  request_prompt :: string
  request_stream :: bool
  request_temperature :: rat
  request_num_predict :: int
  request_timeout :: int

text \<open>The response of the server: its status code, and what evaluating
  \<open>response.json()["response"]\<close> gives, which is the text of the model, or an
  exception when the body is not JSON or has no such field.\<close>

record http_response =
  status_code :: int
  json_response :: "request_exception + string"

text \<open>The network and the server are a parameter of the model: the outcome of
  \<open>requests.post\<close> for a request is an exception or a response.\<close>

type_synonym ollama_server = "generate_request \<Rightarrow> request_exception + http_response"

text \<open>The configuration is read from the environment by the constructor (with the
  defaults \<open>http://localhost:11434\<close>, \<open>phi3:mini\<close>, 500 and 0.7); here it is passed in.\<close>

record bhashavox_engine =
  ollama_url :: string
  model_name :: string
  max_tokens :: int
  temperature :: rat
  memory :: conversation_memory
  analytics :: analytics_tracker

definition init_engine :: "string \<Rightarrow> string \<Rightarrow> int \<Rightarrow> rat \<Rightarrow> rat \<Rightarrow> bhashavox_engine" where
  "init_engine url name tokens temp now =
     \<lparr>ollama_url = url, model_name = name, max_tokens = tokens, temperature = temp,
      memory = init_memory 10, analytics = init_analytics now\<rparr>"

text \<open>\<open>temperature or self.temperature\<close>: the override counts unless it is \<open>None\<close> or zero.\<close>

definition generate_request_of ::
  "bhashavox_engine \<Rightarrow> string \<Rightarrow> rat option \<Rightarrow> generate_request" where
  "generate_request_of e prompt temperature_override =
     \<lparr>request_url = ollama_url e @ ''/api/generate'',
      request_model = model_name e,
      request_prompt = prompt,
      request_stream = False,
      request_temperature =
        (case temperature_override of
           None \<Rightarrow> temperature e
         | Some t \<Rightarrow> if t = 0 then temperature e else t),
      request_num_predict = max_tokens e,
      request_timeout = 30\<rparr>"

text \<open>The three \<open>except\<close> clauses.\<close>

fun on_exception :: "request_exception \<Rightarrow> string" where
  "on_exception ConnectionError =
     ''Error: Cannot connect to Ollama. Make sure Ollama is running (ollama serve)''"
| "on_exception Timeout = ''Error: Request timed out. The model might be loading.''"
| "on_exception (OtherException text) = ''Error: '' @ text"

definition call_ollama ::
  "ollama_server \<Rightarrow> bhashavox_engine \<Rightarrow> string \<Rightarrow> rat option \<Rightarrow> string" where
  "call_ollama post e prompt temperature_override =
     (case post (generate_request_of e prompt temperature_override) of
        Inl ex \<Rightarrow> on_exception ex
      | Inr response \<Rightarrow>
          if status_code response = 200
          then (case json_response response of
                  Inl ex \<Rightarrow> on_exception ex
                | Inr text \<Rightarrow> text)
          else ''Error: Ollama returned status code '' @ py_str_int (status_code response))"

subsection \<open>The operations of a session\<close>


definition valid_levels :: "string list" where
  "valid_levels = [''Beginner'', ''Intermediate'', ''Advanced'']"

text \<open>The loop over the valid levels, which returns from inside at the first name that
  the text contains, and the default after it.\<close>

fun assess_level_loop ::
  "string \<Rightarrow> string list \<Rightarrow> bhashavox_engine \<Rightarrow> string \<times> bhashavox_engine" where
  "assess_level_loop level [] e = (''Intermediate'', e)"
| "assess_level_loop level (valid_level # rest) e =
     (if py_in (py_lower valid_level) (py_lower level)
      then (valid_level, e\<lparr>memory := set_user_level valid_level (memory e)\<rparr>)
      else assess_level_loop level rest e)"

definition assess_level ::
  "ollama_server \<Rightarrow> string \<Rightarrow> bhashavox_engine \<Rightarrow> string \<times> bhashavox_engine" where
  "assess_level post user_message e =
     (let prompt = create_level_assessment_prompt user_message;
          level = py_strip (call_ollama post e prompt (Some (3 / 10)))
      in assess_level_loop level valid_levels e)"

record session_stats = session_summary +
  conversation_turns :: int
  stats_user_level :: "string option"

definition get_stats ::
  "(rat \<Rightarrow> rat) \<Rightarrow> (rat \<Rightarrow> rat) \<Rightarrow> rat \<Rightarrow> bhashavox_engine \<Rightarrow> py_error + session_stats" where
  "get_stats round2 round2_duration now e =
     (case get_session_summary round2 round2_duration now (analytics e) of
        Inl err \<Rightarrow> Inl err
      | Inr stats \<Rightarrow>
          Inr \<lparr>summary_total_messages = summary_total_messages stats,
               summary_corrections_made = summary_corrections_made stats,
               summary_accuracy_rate = summary_accuracy_rate stats,
               summary_session_duration_minutes = summary_session_duration_minutes stats,
               summary_common_mistakes = summary_common_mistakes stats,
               summary_total_mistake_types = summary_total_mistake_types stats,
               conversation_turns = get_conversation_count (memory e),
               stats_user_level = get_user_level (memory e)\<rparr>)"

text \<open>\<open>BhashaVoxEngine.reset_session\<close>, which calls \<open>reset_session\<close> of the tracker.\<close>

definition engine_reset_session :: "rat \<Rightarrow> bhashavox_engine \<Rightarrow> string \<times> bhashavox_engine" where
  "engine_reset_session now e =
     (''Session reset successfully!'',
      e\<lparr>memory := clear_history (memory e), analytics := reset_session now (analytics e)\<rparr>)"


section \<open>The bounded history\<close>

lemma last_k_append:
  "drop (length (drop (length h - k) h @ ys) - k) (drop (length h - k) h @ ys) =
   drop (length (h @ ys) - k) (h @ ys)"
proof (cases "length h \<le> k")
  case True
  then show ?thesis by simp
next
  case False
  then have "length (drop (length h - k) h) = k" by simp
  then show ?thesis using False
    by (cases "length ys \<le> k") (simp_all add: add.commute)
qed

lemma add_message_max_history: "max_history (add_message r msg m) = max_history m"
  by (simp add: add_message_def Let_def)

lemma add_message_history_pos:
  assumes "0 < max_history m"
  shows "history (add_message r msg m) =
         (let h = history m @ [\<lparr>role = r, message = msg\<rparr>]
          in drop (length h - nat (2 * max_history m)) h)"
proof -
  let ?h = "history m @ [\<lparr>role = r, message = msg\<rparr>]"
  show ?thesis
  proof (cases "int (length ?h) > max_history m * 2")
    case True
    then have "nat (int (length ?h) + - max_history m * 2) = length ?h - nat (2 * max_history m)"
      using assms by linarith
    with True assms show ?thesis
      by (simp add: add_message_def Let_def py_slice_from_def)
  next
    case False
    then have "length ?h - nat (2 * max_history m) = 0"
      by linarith
    with False show ?thesis
      by (simp add: add_message_def Let_def)
  qed
qed

lemma add_message_length_pos:
  assumes "0 < max_history m" and "int (length (history m)) \<le> 2 * max_history m"
  shows "int (length (history (add_message r msg m))) \<le> 2 * max_history m"
  using assms by (simp add: add_message_history_pos Let_def)

lemma add_messages_max_history: "max_history (add_messages calls m) = max_history m"
  unfolding add_messages_def
  by (induction calls arbitrary: m) (auto simp: add_message_max_history)

lemma add_messages_history_pos:
  assumes "0 < max_history m" and "history m = []"
  shows "history (add_messages calls m) =
         drop (length calls - nat (2 * max_history m)) (map entry_of calls)"
proof -
  have gen: "history (fold (\<lambda>(r, msg). add_message r msg) calls m') =
             drop (length (history m' @ map entry_of calls) - nat (2 * max_history m'))
               (history m' @ map entry_of calls)"
    if "0 < max_history m'" "int (length (history m')) \<le> 2 * max_history m'"
    for m' using that
  proof (induction calls arbitrary: m')
    case Nil
    then have "length (history m') - nat (2 * max_history m') = 0" by linarith
    then show ?case by simp
  next
    case (Cons c calls)
    obtain r msg where c: "c = (r, msg)" by (cases c)
    let ?m = "add_message r msg m'"
    let ?k = "nat (2 * max_history m')"
    let ?h = "history m' @ [\<lparr>role = r, message = msg\<rparr>]"
    have mh: "max_history ?m = max_history m'" by (rule add_message_max_history)
    have h1: "history ?m = drop (length ?h - ?k) ?h"
      using Cons.prems(1) by (simp add: add_message_history_pos Let_def)
    have len: "int (length (history ?m)) \<le> 2 * max_history ?m"
      using add_message_length_pos [OF Cons.prems] mh by simp
    have pos: "0 < max_history ?m" using Cons.prems(1) mh by simp
    have "history (fold (\<lambda>(r, msg). add_message r msg) (c # calls) m') =
          history (fold (\<lambda>(r, msg). add_message r msg) calls ?m)"
      by (simp add: c)
    also have "\<dots> = drop (length (history ?m @ map entry_of calls) - ?k)
                       (history ?m @ map entry_of calls)"
      using Cons.IH [OF pos len] mh by simp
    also have "\<dots> = drop (length (?h @ map entry_of calls) - ?k) (?h @ map entry_of calls)"
      unfolding h1 by (rule last_k_append)
    finally have step: "history (fold (\<lambda>(r, msg). add_message r msg) (c # calls) m') =
        drop (length (?h @ map entry_of calls) - ?k) (?h @ map entry_of calls)" .
    have "history m' @ map entry_of (c # calls) = ?h @ map entry_of calls"
      by (simp add: c entry_of_def)
    with step show ?case by (simp only:)
  qed
  from assms show ?thesis
    unfolding add_messages_def using gen [of m] by simp
qed

lemma history_bounded_for_positive_capacity:
  assumes "0 < max_history m" and "history m = []"
  shows "int (length (history (add_messages calls m))) \<le> 2 * max_history m"
    and "history (add_messages calls m) =
         drop (length calls - nat (2 * max_history m)) (map entry_of calls)"
    and "int (length calls) > 2 * max_history m \<Longrightarrow>
         int (length (history (add_messages calls m))) = 2 * max_history m"
  using assms by (simp_all add: add_messages_history_pos)

text \<open>
  C1. The history is meant never to hold more than twice \<open>max_history\<close> entries, the
  oldest being dropped first. With a positive capacity the code does so (lemma
  \<open>history_bounded_for_positive_capacity\<close>). With capacity zero the slice
  \<open>history[-0:]\<close> is the whole list, so nothing is ever dropped: after one call on a
  memory built with \<open>max_history = 0\<close> the history holds one entry, above the cap of
  zero.
\<close>

theorem add_message_zero_capacity_keeps_entry:
  "history (add_message ''user'' ''hi'' (init_memory 0)) = [\<lparr>role = ''user'', message = ''hi''\<rparr>]
   \<and> int (length (history (add_message ''user'' ''hi'' (init_memory 0))))
       > 2 * max_history (init_memory 0)"
  by (simp add: add_message_def init_memory_def py_slice_from_def Let_def)

section \<open>The rendered transcript\<close>

lemma fold_history_line:
  "fold (\<lambda>msg history_str. history_str @ history_line msg) h acc =
   acc @ concat (map history_line h)"
  by (induction h arbitrary: acc) simp_all

text \<open>
  C8 as stated fails: the renderings are not joined by newlines, every one of them is
  followed by a newline, the last one too. For a history of one user turn and one
  assistant turn the transcript of the code and the joined transcript differ.
\<close>

theorem get_history_string_not_joined:
  "get_history_string
     \<lparr>max_history = 10,
      history = [\<lparr>role = ''user'', message = ''hi''\<rparr>, \<lparr>role = ''assistant'', message = ''hello''\<rparr>],
      user_level = None\<rparr>
   \<noteq> render_history_joined
       [\<lparr>role = ''user'', message = ''hi''\<rparr>, \<lparr>role = ''assistant'', message = ''hello''\<rparr>]"
  by (simp add: get_history_string_def render_history_joined_def history_line_def
      role_name_def newline_def)

text \<open>
  C8, amended. The transcript is the concatenation, in chronological order, of the
  turns, each rendered as display name, colon, space, text and a closing newline. It is
  empty for the empty history, and a history of one user turn and one assistant turn
  gives the user line followed by the assistant line, each closed by a newline.
\<close>

theorem get_history_string_lines:
  "get_history_string m = concat (map history_line (history m))
   \<and> get_history_string (m\<lparr>history := []\<rparr>) = ''''
   \<and> get_history_string
        (m\<lparr>history := [\<lparr>role = ''user'', message = u\<rparr>, \<lparr>role = ''assistant'', message = a\<rparr>]\<rparr>)
      = ''User: '' @ u @ newline @ ''BhashaVox AI: '' @ a @ newline"
proof -
  have all: "get_history_string m' = concat (map history_line (history m'))" for m'
    by (simp add: get_history_string_def fold_history_line)
  have two: "concat (map history_line
               [\<lparr>role = ''user'', message = u\<rparr>, \<lparr>role = ''assistant'', message = a\<rparr>])
             = ''User: '' @ u @ newline @ ''BhashaVox AI: '' @ a @ newline"
    by (simp add: history_line_def role_name_def)
  show ?thesis
    using two by (simp add: all)
qed

section \<open>The counters of the analytics tracker\<close>

definition counters_agree :: "analytics_tracker \<Rightarrow> bool" where
  "counters_agree a \<longleftrightarrow>
     corrections_made a = int (length (mistakes a)) \<and>
     int (length (mistakes a)) = sum_list (map snd (mistake_categories a))"

lemma sum_dict_set:
  "sum_list (map snd (dict_set k v d)) =
   sum_list (map snd d) - (case map_of d k of None \<Rightarrow> 0 | Some w \<Rightarrow> w) + (v :: int)"
  by (induction d) auto

lemma sum_defaultdict_incr:
  "sum_list (map snd (defaultdict_incr k d)) = sum_list (map snd d) + 1"
  by (simp add: defaultdict_incr_def sum_dict_set split: option.split)

lemma counters_agree_init: "counters_agree (init_analytics t0)"
  by (simp add: counters_agree_def init_analytics_def)

lemma counters_agree_run_call: "counters_agree a \<Longrightarrow> counters_agree (run_call c a)"
  by (cases c)
    (simp_all add: counters_agree_def log_message_def log_mistake_def reset_session_def
      sum_defaultdict_incr)

lemma counters_agree_run_calls: "counters_agree a \<Longrightarrow> counters_agree (run_calls calls a)"
  unfolding run_calls_def
  by (induction calls arbitrary: a) (simp_all add: counters_agree_run_call)

text \<open>
  C10. In the initial state of the tracker and after every sequence of
  \<open>log_message\<close>, \<open>log_mistake\<close> and \<open>reset_session\<close> calls, the correction counter, the
  length of the list of mistakes and the sum of the counts per category are equal.
\<close>

theorem corrections_made_is_length_is_sum:
  "corrections_made (tracker_after t0 calls) = int (length (mistakes (tracker_after t0 calls)))
   \<and> int (length (mistakes (tracker_after t0 calls)))
       = sum_list (map snd (mistake_categories (tracker_after t0 calls)))"
  using counters_agree_run_calls [OF counters_agree_init, of calls t0]
  by (simp add: counters_agree_def tracker_after_def)

section \<open>The accuracy rate\<close>

lemma total_messages_run_call: "0 \<le> total_messages a \<Longrightarrow> 0 \<le> total_messages (run_call c a)"
  by (cases c) (simp_all add: log_message_def log_mistake_def reset_session_def)

lemma total_messages_nonneg: "0 \<le> total_messages (tracker_after t0 calls)"
proof -
  have "0 \<le> total_messages a \<Longrightarrow> 0 \<le> total_messages (fold run_call calls a)" for a
    by (induction calls arbitrary: a) (simp_all add: total_messages_run_call)
  then show ?thesis
    by (simp add: tracker_after_def run_calls_def init_analytics_def)
qed

lemma round_half_even_close: "\<bar>of_int (round_half_even y) - y\<bar> \<le> 1 / 2"
proof -
  have "of_int \<lfloor>y\<rfloor> \<le> y" "y < of_int \<lfloor>y\<rfloor> + 1" by linarith+
  then show ?thesis
    by (auto simp: round_half_even_def Let_def)
qed

lemma round2_half_even_nearest: "nearest_hundredth x (round2_half_even x)"
proof -
  have "\<bar>of_int (round_half_even (x * 100)) - x * 100\<bar> \<le> 1 / 2"
    by (rule round_half_even_close)
  then have "\<bar>of_int (round_half_even (x * 100)) / 100 - x\<bar> \<le> 1 / 200"
    by (simp add: abs_le_iff field_simps)
  then show ?thesis
    by (simp add: nearest_hundredth_def round2_half_even_def)
qed

lemma nearest_hundredth_le:
  assumes "nearest_hundredth x h" and "x \<le> of_int n / 100"
  shows "h \<le> of_int n / 100"
proof -
  define k where "k = \<lfloor>h * 100\<rfloor>"
  have k: "of_int k = h * 100" and abs: "\<bar>h - x\<bar> \<le> 1 / 200"
    using assms(1) unfolding nearest_hundredth_def k_def by blast+
  from abs assms(2) have "h * 100 \<le> of_int n + 1 / 2" by linarith
  with k have "(of_int k :: rat) < of_int (n + 1)" by simp
  then have "k \<le> n" by (simp only: of_int_less_iff)
  then have "(of_int k :: rat) \<le> of_int n" by simp
  with k show ?thesis by (simp add: field_simps)
qed

lemma nearest_hundredth_ge:
  assumes "nearest_hundredth x h" and "of_int n / 100 \<le> x"
  shows "of_int n / 100 \<le> h"
proof -
  define k where "k = \<lfloor>h * 100\<rfloor>"
  have k: "of_int k = h * 100" and abs: "\<bar>h - x\<bar> \<le> 1 / 200"
    using assms(1) unfolding nearest_hundredth_def k_def by blast+
  from abs assms(2) have "of_int n - 1 / 2 \<le> h * 100" by linarith
  with k have "(of_int (n - 1) :: rat) < of_int k" by simp
  then have "n \<le> k" by (simp only: of_int_less_iff)
  then have "(of_int n :: rat) \<le> of_int k" by simp
  with k show ?thesis by (simp add: field_simps)
qed

text \<open>Away from an exact tie the nearest hundredth is unique.\<close>

lemma nearest_hundredth_unique:
  assumes "nearest_hundredth x h" and "nearest_hundredth x h'" and "\<bar>h' - x\<bar> < 1 / 200"
  shows "h = h'"
proof -
  define k where "k = \<lfloor>h * 100\<rfloor>"
  define k' where "k' = \<lfloor>h' * 100\<rfloor>"
  have k: "of_int k = h * 100" and k': "of_int k' = h' * 100"
    and abs: "\<bar>h - x\<bar> \<le> 1 / 200"
    using assms(1,2) unfolding nearest_hundredth_def k_def k'_def by blast+
  from abs assms(3) have "\<bar>h * 100 - h' * 100\<bar> < 1" by linarith
  then have "\<bar>(of_int (k - k') :: rat)\<bar> < of_int 1" using k k' by simp
  then have "\<bar>k - k'\<bar> < 1" by (simp only: of_int_abs [symmetric] of_int_less_iff)
  then have "k = k'" by simp
  with k k' have "h * 100 = h' * 100" by simp
  then show ?thesis by simp
qed

lemma get_accuracy_rate_value:
  "get_accuracy_rate round2 a =
   Inr (if total_messages a = 0 then 100 else round2 (accuracy_share a))"
  by (simp add: get_accuracy_rate_def py_truediv_def Let_def accuracy_share_def)

lemma share_at_most_100:
  assumes "0 < total_messages a"
  shows "accuracy_share a \<le> 100"
proof -
  let ?t = "total_messages a" and ?m = "int (length (mistakes a))"
  have t: "(0 :: rat) < of_int ?t" using assms by simp
  have le: "(of_int (?t - ?m) :: rat) \<le> of_int ?t" by simp
  from t le show ?thesis
    unfolding accuracy_share_def by (simp add: field_simps)
qed

lemma share_at_least_0:
  assumes "0 < total_messages a" and "int (length (mistakes a)) \<le> total_messages a"
  shows "0 \<le> accuracy_share a"
proof -
  let ?t = "total_messages a" and ?m = "int (length (mistakes a))"
  have t: "(0 :: rat) < of_int ?t" using assms(1) by simp
  have n: "(0 :: rat) \<le> of_int (?t - ?m)" using assms(2) by simp
  from t n show ?thesis
    unfolding accuracy_share_def by simp
qed

text \<open>After three \<open>log_message\<close> and four \<open>log_mistake\<close> calls the share is -100/3, and
  whichever rounding to the nearest hundredth is used, the rate is -33.33.\<close>

lemma get_accuracy_rate_below_zero:
  assumes "nearest_hundredth (- 100 / 3) (round2 (- 100 / 3))"
  shows "get_accuracy_rate round2
     (tracker_after 0
        [LogMessage, LogMessage, LogMessage,
         LogMistake 1 ''a'' ''b'' ''grammar'', LogMistake 2 ''a'' ''b'' ''grammar'',
         LogMistake 3 ''a'' ''b'' ''grammar'', LogMistake 4 ''a'' ''b'' ''grammar''])
   = Inr (- 3333 / 100)"
proof -
  let ?a = "tracker_after 0
        [LogMessage, LogMessage, LogMessage,
         LogMistake 1 ''a'' ''b'' ''grammar'', LogMistake 2 ''a'' ''b'' ''grammar'',
         LogMistake 3 ''a'' ''b'' ''grammar'', LogMistake 4 ''a'' ''b'' ''grammar'']"
  have t: "total_messages ?a = 3" and m: "length (mistakes ?a) = 4"
    by (simp_all add: tracker_after_def run_calls_def init_analytics_def log_message_def
        log_mistake_def)
  have share: "accuracy_share ?a = - 100 / 3"
    unfolding accuracy_share_def t m by simp
  have near: "nearest_hundredth (- 100 / 3) (- 3333 / 100)"
    by code_simp
  have close: "\<bar>- 3333 / 100 - (- 100 / 3 :: rat)\<bar> < 1 / 200"
    by simp
  from nearest_hundredth_unique [OF assms near close]
  have "round2 (- 100 / 3) = - 3333 / 100" .
  then show ?thesis
    unfolding get_accuracy_rate_value share t by simp
qed

text \<open>
  C2 as stated fails. After three \<open>log_message\<close> and four \<open>log_mistake\<close> calls the rate
  is -33.33: it lies below 0, and it is the rounded value, not 100 (3 - 4) / 3.
\<close>

theorem get_accuracy_rate_negative_and_rounded:
  "get_accuracy_rate round2_half_even
     (tracker_after 0
        [LogMessage, LogMessage, LogMessage,
         LogMistake 1 ''a'' ''b'' ''grammar'', LogMistake 2 ''a'' ''b'' ''grammar'',
         LogMistake 3 ''a'' ''b'' ''grammar'', LogMistake 4 ''a'' ''b'' ''grammar''])
   = Inr (- 3333 / 100)
   \<and> \<not> (0 \<le> (- 3333 / 100 :: rat))
   \<and> (- 3333 / 100 :: rat) \<noteq> 100 * (3 - 4) / 3"
  by code_simp

text \<open>
  C2, amended. In every state of the tracker reached by \<open>log_message\<close>,
  \<open>log_mistake\<close> and \<open>reset_session\<close> calls in any order, \<open>get_accuracy_rate\<close> raises no
  division error; it returns 100 when no message was counted and otherwise
  100 (total - mistakes) / total rounded to two decimal places, that is a multiple of
  one hundredth at most 1/200 away from it, provided the rounding returns such a value
  for this share; the value never exceeds 100, and it is at least 0 whenever the number
  of mistake records does not exceed the number of messages.
\<close>

theorem get_accuracy_rate_rounded_share:
  assumes "total_messages (tracker_after t0 calls) \<noteq> 0 \<Longrightarrow>
           nearest_hundredth (accuracy_share (tracker_after t0 calls))
             (round2 (accuracy_share (tracker_after t0 calls)))"
  shows "\<exists>r. get_accuracy_rate round2 (tracker_after t0 calls) = Inr r
     \<and> (if total_messages (tracker_after t0 calls) = 0 then r = 100
        else r = round2 (accuracy_share (tracker_after t0 calls))
             \<and> nearest_hundredth (accuracy_share (tracker_after t0 calls)) r)
     \<and> r \<le> 100
     \<and> (int (length (mistakes (tracker_after t0 calls))) \<le> total_messages (tracker_after t0 calls)
        \<longrightarrow> 0 \<le> r)"
proof -
  let ?a = "tracker_after t0 calls"
  let ?t = "total_messages ?a"
  let ?m = "int (length (mistakes ?a))"
  let ?r = "if ?t = 0 then 100 else round2 (accuracy_share ?a)"
  have val: "get_accuracy_rate round2 ?a = Inr ?r" by (rule get_accuracy_rate_value)
  show ?thesis
  proof (cases "?t = 0")
    case True
    with val show ?thesis by simp
  next
    case False
    with total_messages_nonneg [of t0 calls] have pos: "0 < ?t" by simp
    from assms False have near: "nearest_hundredth (accuracy_share ?a) (round2 (accuracy_share ?a))"
      by simp
    have "accuracy_share ?a \<le> of_int 10000 / 100"
      using share_at_most_100 [OF pos] by simp
    from nearest_hundredth_le [OF near this]
    have hi: "round2 (accuracy_share ?a) \<le> 100" by simp
    have lo: "0 \<le> round2 (accuracy_share ?a)" if "?m \<le> ?t"
    proof -
      have "of_int 0 / 100 \<le> accuracy_share ?a"
        using share_at_least_0 [OF pos that] by simp
      from nearest_hundredth_ge [OF near this] show ?thesis by simp
    qed
    from val False near hi lo show ?thesis by simp
  qed
qed

theorem get_accuracy_rate_rounded_share_witness:
  "total_messages (tracker_after 0
        [LogMessage, LogMessage, LogMessage, LogMistake 1 ''a'' ''b'' ''grammar'']) \<noteq> 0
   \<and> nearest_hundredth
       (accuracy_share (tracker_after 0
          [LogMessage, LogMessage, LogMessage, LogMistake 1 ''a'' ''b'' ''grammar'']))
       (round2_half_even (accuracy_share (tracker_after 0
          [LogMessage, LogMessage, LogMessage, LogMistake 1 ''a'' ''b'' ''grammar''])))
   \<and> int (length (mistakes (tracker_after 0
        [LogMessage, LogMessage, LogMessage, LogMistake 1 ''a'' ''b'' ''grammar''])))
     \<le> total_messages (tracker_after 0
        [LogMessage, LogMessage, LogMessage, LogMistake 1 ''a'' ''b'' ''grammar''])
   \<and> get_accuracy_rate round2_half_even (tracker_after 0
        [LogMessage, LogMessage, LogMessage, LogMistake 1 ''a'' ''b'' ''grammar''])
       = Inr (6667 / 100)
   \<and> (\<exists>r. get_accuracy_rate round2_half_even (tracker_after 0
        [LogMessage, LogMessage, LogMessage, LogMistake 1 ''a'' ''b'' ''grammar''])
       = Inr r \<and> nearest_hundredth (200 / 3) r \<and> 0 \<le> r \<and> r \<le> 100)"
proof -
  let ?a = "tracker_after 0 [LogMessage, LogMessage, LogMessage, LogMistake 1 ''a'' ''b'' ''grammar'']"
  have t: "total_messages ?a = 3" and m: "length (mistakes ?a) = 1"
    by (simp_all add: tracker_after_def run_calls_def init_analytics_def log_message_def
        log_mistake_def)
  have share: "accuracy_share ?a = 200 / 3"
    unfolding accuracy_share_def t m by simp
  have pos: "total_messages ?a \<noteq> 0" and hyp: "int (length (mistakes ?a)) \<le> total_messages ?a"
    unfolding t m by simp_all
  have near: "nearest_hundredth (accuracy_share ?a) (round2_half_even (accuracy_share ?a))"
    unfolding share by code_simp
  have val: "get_accuracy_rate round2_half_even ?a = Inr (6667 / 100)"
    by code_simp
  from get_accuracy_rate_rounded_share [of 0 "[LogMessage, LogMessage, LogMessage,
      LogMistake 1 ''a'' ''b'' ''grammar'']" round2_half_even] near pos hyp
  have "\<exists>r. get_accuracy_rate round2_half_even ?a = Inr r
          \<and> nearest_hundredth (accuracy_share ?a) r \<and> 0 \<le> r \<and> r \<le> 100"
    by auto
  then have "\<exists>r. get_accuracy_rate round2_half_even ?a = Inr r
          \<and> nearest_hundredth (200 / 3) r \<and> 0 \<le> r \<and> r \<le> 100"
    unfolding share .
  with pos near hyp val show ?thesis by blast
qed

section \<open>The table of categories\<close>

lemma dict_set_present:
  "distinct L \<Longrightarrow> c \<in> set L \<Longrightarrow>
   dict_set c v (map (\<lambda>k. (k, g k)) L) = map (\<lambda>k. (k, if k = c then v else g k)) L"
  by (induction L) auto

lemma dict_set_absent:
  "c \<notin> set L \<Longrightarrow> dict_set c v (map (\<lambda>k. (k, g k)) L) = map (\<lambda>k. (k, g k)) L @ [(c, v)]"
  by (induction L) auto

lemma map_of_graph:
  "map_of (map (\<lambda>k. (k, g k)) L) c = (if c \<in> set L then Some (g c) else None)"
  by (induction L) auto

lemma set_first_occurrences: "set (first_occurrences cs) = set cs"
  by (simp add: first_occurrences_def)

lemma distinct_first_occurrences: "distinct (first_occurrences cs)"
  by (simp add: first_occurrences_def)

lemma first_occurrences_snoc:
  "first_occurrences (cs @ [c]) =
   (if c \<in> set cs then first_occurrences cs else first_occurrences cs @ [c])"
  by (simp add: first_occurrences_def)

lemma fold_defaultdict_incr:
  "fold defaultdict_incr cs [] = map (counted cs) (first_occurrences cs)"
proof (induction cs rule: rev_induct)
  case Nil
  show ?case by (simp add: first_occurrences_def)
next
  case (snoc c cs)
  let ?L = "first_occurrences cs"
  let ?g = "\<lambda>k. int (count_list cs k)"
  have D: "fold defaultdict_incr cs [] = map (\<lambda>k. (k, ?g k)) ?L"
    using snoc.IH by (simp add: counted_def [abs_def])
  have step: "fold defaultdict_incr (cs @ [c]) [] =
              dict_set c ((case map_of (map (\<lambda>k. (k, ?g k)) ?L) c of None \<Rightarrow> 0 | Some v \<Rightarrow> v) + 1)
                (map (\<lambda>k. (k, ?g k)) ?L)"
    by (simp add: D defaultdict_incr_def)
  show ?case
  proof (cases "c \<in> set cs")
    case True
    then have "fold defaultdict_incr (cs @ [c]) [] =
               map (\<lambda>k. (k, if k = c then ?g c + 1 else ?g k)) ?L"
      unfolding step
      by (simp add: map_of_graph set_first_occurrences dict_set_present
          distinct_first_occurrences)
    also have "\<dots> = map (counted (cs @ [c])) ?L"
      by (rule map_cong) (auto simp: counted_def)
    finally show ?thesis using True by (simp add: first_occurrences_snoc)
  next
    case False
    then have "fold defaultdict_incr (cs @ [c]) [] = map (\<lambda>k. (k, ?g k)) ?L @ [(c, 1)]"
      unfolding step
      by (simp add: map_of_graph set_first_occurrences dict_set_absent)
    also have "map (\<lambda>k. (k, ?g k)) ?L = map (counted (cs @ [c])) ?L"
      using False by (intro map_cong) (auto simp: counted_def set_first_occurrences)
    finally show ?thesis using False by (simp add: first_occurrences_snoc counted_def)
  qed
qed

lemma mistake_categories_run_call:
  "mistake_categories a = fold defaultdict_incr (category_log a) [] \<Longrightarrow>
   mistake_categories (run_call c a) = fold defaultdict_incr (category_log (run_call c a)) []"
  by (cases c)
    (simp_all add: category_log_def log_message_def log_mistake_def reset_session_def)

lemma mistake_categories_tracker_after:
  "mistake_categories (tracker_after t0 calls) =
   map (counted (category_log (tracker_after t0 calls)))
     (first_occurrences (category_log (tracker_after t0 calls)))"
proof -
  have "mistake_categories a = fold defaultdict_incr (category_log a) [] \<Longrightarrow>
        mistake_categories (fold run_call calls a) =
        fold defaultdict_incr (category_log (fold run_call calls a)) []" for a
    by (induction calls arbitrary: a) (simp_all add: mistake_categories_run_call)
  then have "mistake_categories (tracker_after t0 calls) =
             fold defaultdict_incr (category_log (tracker_after t0 calls)) []"
    by (simp add: tracker_after_def run_calls_def init_analytics_def category_log_def)
  then show ?thesis by (simp add: fold_defaultdict_incr)
qed

section \<open>The ranking of the categories\<close>

lemma first_index_less: "c \<in> set cs \<Longrightarrow> first_index cs c < length cs"
  unfolding first_index_def
  by (induction cs) auto

lemma first_index_snoc_old: "d \<in> set cs \<Longrightarrow> first_index (cs @ [c]) d = first_index cs d"
  by (simp add: first_index_def)

lemma first_index_snoc_new: "c \<notin> set cs \<Longrightarrow> first_index (cs @ [c]) c = length cs"
  unfolding first_index_def
  by (induction cs) auto

lemma first_occurrences_ascending:
  "sorted_wrt (\<lambda>c d. first_index cs c < first_index cs d) (first_occurrences cs)"
proof (induction cs rule: rev_induct)
  case Nil
  show ?case by (simp add: first_occurrences_def)
next
  case (snoc c cs)
  have old: "sorted_wrt (\<lambda>x y. first_index (cs @ [c]) x < first_index (cs @ [c]) y)
               (first_occurrences cs)"
    by (rule sorted_wrt_mono_rel [OF _ snoc.IH])
      (simp add: first_index_snoc_old set_first_occurrences)
  show ?case
  proof (cases "c \<in> set cs")
    case True
    with old show ?thesis by (simp add: first_occurrences_snoc)
  next
    case False
    have "first_index (cs @ [c]) x < first_index (cs @ [c]) c" if "x \<in> set cs" for x
      using that False by (simp add: first_index_snoc_old first_index_snoc_new first_index_less)
    with old False show ?thesis
      by (simp add: first_occurrences_snoc sorted_wrt_append set_first_occurrences)
  qed
qed

lemma insort_key_keeps_order:
  assumes "sorted_wrt (\<lambda>x y. f x < f y \<or> (f x = f y \<and> R x y)) S"
    and "\<forall>y\<in>set S. R x y"
  shows "sorted_wrt (\<lambda>x y. f x < f y \<or> (f x = f y \<and> R x y)) (insort_key f x S)"
  using assms
proof (induction S)
  case Nil
  show ?case by simp
next
  case (Cons y ys)
  show ?case
  proof (cases "f x \<le> f y")
    case True
    have "f x < f z \<or> (f x = f z \<and> R x z)" if "z \<in> set (y # ys)" for z
    proof -
      have "f y \<le> f z" using Cons.prems(1) that by auto
      with True have "f x \<le> f z" by simp
      moreover have "R x z" using Cons.prems(2) that by blast
      ultimately show ?thesis by auto
    qed
    with True Cons.prems(1) show ?thesis by simp
  next
    case False
    then have "f y < f x" by simp
    moreover have "sorted_wrt (\<lambda>x y. f x < f y \<or> (f x = f y \<and> R x y)) (insort_key f x ys)"
      using Cons by simp
    ultimately show ?thesis using False Cons.prems(1) by (auto simp: set_insort_key)
  qed
qed

lemma sort_key_keeps_order:
  "sorted_wrt R xs \<Longrightarrow>
   sorted_wrt (\<lambda>x y. f x < f y \<or> (f x = f y \<and> R x y)) (sort_key f xs)"
proof (induction xs)
  case Nil
  show ?case by simp
next
  case (Cons x xs)
  then have "sorted_wrt (\<lambda>x y. f x < f y \<or> (f x = f y \<and> R x y)) (sort_key f xs)"
    and "\<forall>y\<in>set (sort_key f xs). R x y"
    by simp_all
  then show ?case by (simp add: insort_key_keeps_order)
qed

lemma ranked_table:
  fixes cs :: "'k list"
  defines "full \<equiv> sorted_by_count_reverse (map (counted cs) (first_occurrences cs))"
  shows "sorted_wrt (ranks_before cs) full"
    and "set full = counted cs ` set cs"
    and "length full = card (set cs)"
proof -
  let ?D = "map (counted cs) (first_occurrences cs)"
  let ?R = "\<lambda>p q. first_index cs (fst p) < first_index cs (fst (q :: 'k \<times> int))"
  have "sorted_wrt ?R ?D"
    using first_occurrences_ascending [of cs] by (simp add: sorted_wrt_map counted_def)
  from sort_key_keeps_order [OF this, of "\<lambda>x. - snd x"]
  have "sorted_wrt (\<lambda>x y. - snd x < - snd y \<or> (- snd x = - snd y \<and> ?R x y)) full"
    by (simp add: full_def sorted_by_count_reverse_def)
  then show "sorted_wrt (ranks_before cs) full"
    by (rule sorted_wrt_mono_rel [rotated]) (auto simp: ranks_before_def)
  show "set full = counted cs ` set cs"
    by (simp add: full_def sorted_by_count_reverse_def set_first_occurrences)
  have "length full = length (first_occurrences cs)"
    by (simp add: full_def sorted_by_count_reverse_def)
  also have "\<dots> = card (set (first_occurrences cs))"
    using distinct_first_occurrences [of cs] by (simp add: distinct_card)
  finally show "length full = card (set cs)" by (simp add: set_first_occurrences)
qed

lemma leader_of_two:
  assumes sorted: "sorted_wrt (ranks_before cs) full"
    and elems: "set full = counted cs ` set cs"
    and two: "set cs \<subseteq> {g, v}"
    and more: "count_list cs v < count_list cs g"
  shows "take 1 full = [counted cs g]"
proof -
  have g: "g \<in> set cs" using more count_list_0_iff [of cs g] by auto
  then have gin: "counted cs g \<in> set full" using elems by simp
  then obtain p ps where full: "full = p # ps" by (cases full) auto
  have "p = counted cs g"
  proof (rule ccontr)
    assume ne: "p \<noteq> counted cs g"
    have "p \<in> counted cs ` set cs" using elems full by auto
    with two ne have p: "p = counted cs v" by auto
    from gin full ne have "counted cs g \<in> set ps" by auto
    with sorted full have "ranks_before cs p (counted cs g)" by auto
    with p more show False by (auto simp: ranks_before_def counted_def)
  qed
  with full show ?thesis by simp
qed

text \<open>
  C7. After any sequence of calls, with \<open>cs\<close> the categories of the mistakes logged since
  the last reset and \<open>n\<close> a number of entries asked for, \<open>get_common_mistakes n\<close> returns
  at most \<open>n\<close> pairs: the first \<open>n\<close> of the table that holds one pair (category, count)
  per category of \<open>cs\<close>, ordered by decreasing count, equal counts in the order in which
  the categories first occurred. In particular, when only ''grammar'' and ''vocabulary''
  were logged and ''grammar'' more often, \<open>get_common_mistakes 1\<close> is the single pair
  of ''grammar'' and its count.
\<close>

theorem get_common_mistakes_ranked:
  "length (get_common_mistakes (int n) (tracker_after t0 calls)) \<le> n
   \<and> get_common_mistakes (int n) (tracker_after t0 calls)
       = take n (sorted_by_count_reverse (mistake_categories (tracker_after t0 calls)))
   \<and> sorted_wrt (ranks_before (category_log (tracker_after t0 calls)))
       (sorted_by_count_reverse (mistake_categories (tracker_after t0 calls)))
   \<and> set (sorted_by_count_reverse (mistake_categories (tracker_after t0 calls)))
       = counted (category_log (tracker_after t0 calls))
           ` set (category_log (tracker_after t0 calls))
   \<and> sorted_wrt (ranks_before (category_log (tracker_after t0 calls)))
       (get_common_mistakes (int n) (tracker_after t0 calls))
   \<and> (set (category_log (tracker_after t0 calls)) \<subseteq> {''grammar'', ''vocabulary''}
        \<and> count_list (category_log (tracker_after t0 calls)) ''vocabulary''
          < count_list (category_log (tracker_after t0 calls)) ''grammar''
      \<longrightarrow> get_common_mistakes 1 (tracker_after t0 calls)
          = [(''grammar'', int (count_list (category_log (tracker_after t0 calls)) ''grammar''))])"
proof -
  let ?a = "tracker_after t0 calls"
  let ?cs = "category_log ?a"
  let ?full = "sorted_by_count_reverse (mistake_categories ?a)"
  have tab: "mistake_categories ?a = map (counted ?cs) (first_occurrences ?cs)"
    by (rule mistake_categories_tracker_after)
  have sorted: "sorted_wrt (ranks_before ?cs) ?full"
    and elems: "set ?full = counted ?cs ` set ?cs"
    unfolding tab by (rule ranked_table)+
  have slice: "get_common_mistakes (int k) ?a = take k ?full" for k
    by (simp add: get_common_mistakes_def py_slice_to_def)
  have short: "sorted_wrt (ranks_before ?cs) (take n ?full)"
    using sorted by (rule sorted_wrt_take)
  have one: "get_common_mistakes 1 ?a = [(''grammar'', int (count_list ?cs ''grammar''))]"
    if "set ?cs \<subseteq> {''grammar'', ''vocabulary''}"
      and "count_list ?cs ''vocabulary'' < count_list ?cs ''grammar''"
    using leader_of_two [OF sorted elems that] slice [of 1]
    by (simp add: counted_def)
  show ?thesis
    using sorted elems short one by (simp add: slice)
qed

theorem get_common_mistakes_ranked_witness:
  "set (category_log (tracker_after 0
      [LogMistake 1 ''a'' ''b'' ''grammar'', LogMistake 2 ''c'' ''d'' ''vocabulary'',
       LogMistake 3 ''e'' ''f'' ''grammar'']))
     \<subseteq> {''grammar'', ''vocabulary''}
   \<and> count_list (category_log (tracker_after 0
      [LogMistake 1 ''a'' ''b'' ''grammar'', LogMistake 2 ''c'' ''d'' ''vocabulary'',
       LogMistake 3 ''e'' ''f'' ''grammar''])) ''vocabulary''
     < count_list (category_log (tracker_after 0
      [LogMistake 1 ''a'' ''b'' ''grammar'', LogMistake 2 ''c'' ''d'' ''vocabulary'',
       LogMistake 3 ''e'' ''f'' ''grammar''])) ''grammar''
   \<and> get_common_mistakes 1 (tracker_after 0
      [LogMistake 1 ''a'' ''b'' ''grammar'', LogMistake 2 ''c'' ''d'' ''vocabulary'',
       LogMistake 3 ''e'' ''f'' ''grammar''])
     = [(''grammar'', 2)]"
proof -
  let ?calls = "[LogMistake 1 ''a'' ''b'' ''grammar'', LogMistake 2 ''c'' ''d'' ''vocabulary'',
       LogMistake 3 ''e'' ''f'' ''grammar'']"
  let ?cs = "category_log (tracker_after 0 ?calls)"
  have cs: "?cs = [''grammar'', ''vocabulary'', ''grammar'']"
    by (simp add: category_log_def tracker_after_def run_calls_def init_analytics_def
        log_mistake_def)
  have two: "set ?cs \<subseteq> {''grammar'', ''vocabulary''}"
    unfolding cs by simp
  have more: "count_list ?cs ''vocabulary'' < count_list ?cs ''grammar''"
    unfolding cs by simp
  have "get_common_mistakes 1 (tracker_after 0 ?calls)
        = [(''grammar'', int (count_list ?cs ''grammar''))]"
    using get_common_mistakes_ranked [of 1 0 ?calls] two more by blast
  moreover have "int (count_list ?cs ''grammar'') = 2"
    unfolding cs by simp
  ultimately show ?thesis using two more by simp
qed

section \<open>The session summary\<close>

lemma dict_set_new: "k \<notin> fst ` set d \<Longrightarrow> dict_set k v d = d @ [(k, v)]"
  by (induction d) auto

lemma fold_dict_set_distinct:
  "distinct (map fst (acc @ xs)) \<Longrightarrow> fold (\<lambda>(k, v). dict_set k v) xs acc = acc @ xs"
proof (induction xs arbitrary: acc)
  case Nil
  show ?case by simp
next
  case (Cons x xs)
  obtain k v where x: "x = (k, v)" by (cases x)
  have new: "dict_set k v acc = acc @ [(k, v)]"
    using Cons.prems by (intro dict_set_new) (auto simp: x)
  have "distinct (map fst ((acc @ [(k, v)]) @ xs))"
    using Cons.prems by (simp add: x)
  from Cons.IH [OF this] show ?case by (simp add: x new)
qed

lemma py_dict_distinct: "distinct (map fst xs) \<Longrightarrow> py_dict xs = xs"
  using fold_dict_set_distinct [of "[]" xs] by (simp add: py_dict_def)

lemma distinct_keys_counted: "distinct (map fst (map (counted cs) (first_occurrences cs)))"
  by (simp add: o_def counted_def distinct_first_occurrences)

lemma distinct_keys_get_common_mistakes:
  "distinct (map fst (get_common_mistakes (int n) (tracker_after t0 calls)))"
proof -
  let ?cs = "category_log (tracker_after t0 calls)"
  let ?D = "map (counted ?cs) (first_occurrences ?cs)"
  have "distinct ?D \<and> inj_on fst (set ?D)"
    using distinct_keys_counted [of ?cs] by (simp only: distinct_map)
  then have "distinct (map fst (sorted_by_count_reverse ?D))"
    by (simp add: distinct_map sorted_by_count_reverse_def)
  then have "distinct (take n (map fst (sorted_by_count_reverse ?D)))"
    by (rule distinct_take)
  then show ?thesis
    by (simp add: get_common_mistakes_def py_slice_to_def mistake_categories_tracker_after
        take_map)
qed

text \<open>
  C9 as stated fails: the summary holds the five highest-ranked categories only. After
  six mistakes of six categories it has no entry for the sixth, ''f''.
\<close>

theorem get_session_summary_drops_sixth_category:
  "get_session_summary round2_half_even round2_half_even 10
     (tracker_after 0
        [LogMistake 1 ''x'' ''y'' ''a'', LogMistake 2 ''x'' ''y'' ''b'',
         LogMistake 3 ''x'' ''y'' ''c'', LogMistake 4 ''x'' ''y'' ''d'',
         LogMistake 5 ''x'' ''y'' ''e'', LogMistake 6 ''x'' ''y'' ''f''])
   = Inr \<lparr>summary_total_messages = 0,
          summary_corrections_made = 6,
          summary_accuracy_rate = 100,
          summary_session_duration_minutes = 17 / 100,
          summary_common_mistakes = [(''a'', 1), (''b'', 1), (''c'', 1), (''d'', 1), (''e'', 1)],
          summary_total_mistake_types = 6\<rparr>
   \<and> ''f'' \<in> set (category_log
        (tracker_after 0
          [LogMistake 1 ''x'' ''y'' ''a'', LogMistake 2 ''x'' ''y'' ''b'',
           LogMistake 3 ''x'' ''y'' ''c'', LogMistake 4 ''x'' ''y'' ''d'',
           LogMistake 5 ''x'' ''y'' ''e'', LogMistake 6 ''x'' ''y'' ''f'']))"
  by code_simp

text \<open>
  C9, amended. In every state of the tracker, and whatever the two roundings return,
  \<open>get_session_summary\<close> assembles the message count, the correction count, the
  accuracy rate (100 when no message was counted, otherwise the rounding of
  100 (total - mistakes) / total), the rounding of the session duration in minutes,
  the number of distinct categories, and a histogram of at most five entries: the five
  highest-ranked pairs (category, count) of \<open>get_common_mistakes\<close>, each the count of a
  category logged since the last reset. The histogram has an entry for every distinct
  category whenever there are at most five of them.
\<close>

theorem get_session_summary_top_five:
  "get_session_summary round2 round2_duration now (tracker_after t0 calls)
   = Inr \<lparr>summary_total_messages = total_messages (tracker_after t0 calls),
          summary_corrections_made = corrections_made (tracker_after t0 calls),
          summary_accuracy_rate =
            (if total_messages (tracker_after t0 calls) = 0 then 100
             else round2 (accuracy_share (tracker_after t0 calls))),
          summary_session_duration_minutes =
            round2_duration ((now - session_start (tracker_after t0 calls)) / 60),
          summary_common_mistakes = get_common_mistakes 5 (tracker_after t0 calls),
          summary_total_mistake_types =
            int (card (set (category_log (tracker_after t0 calls))))\<rparr>
   \<and> length (get_common_mistakes 5 (tracker_after t0 calls)) \<le> 5
   \<and> set (get_common_mistakes 5 (tracker_after t0 calls))
       \<subseteq> counted (category_log (tracker_after t0 calls))
           ` set (category_log (tracker_after t0 calls))
   \<and> (card (set (category_log (tracker_after t0 calls))) \<le> 5
      \<longrightarrow> set (get_common_mistakes 5 (tracker_after t0 calls))
          = counted (category_log (tracker_after t0 calls))
              ` set (category_log (tracker_after t0 calls)))"
proof -
  let ?a = "tracker_after t0 calls"
  let ?cs = "category_log ?a"
  let ?full = "sorted_by_count_reverse (mistake_categories ?a)"
  have tab: "mistake_categories ?a = map (counted ?cs) (first_occurrences ?cs)"
    by (rule mistake_categories_tracker_after)
  have elems: "set ?full = counted ?cs ` set ?cs"
    and len: "length ?full = card (set ?cs)"
    unfolding tab by (rule ranked_table)+
  have five: "get_common_mistakes 5 ?a = take 5 ?full"
    by (simp add: get_common_mistakes_def py_slice_to_def)
  have types: "int (length (mistake_categories ?a)) = int (card (set ?cs))"
    using len by (simp add: sorted_by_count_reverse_def)
  have dict: "py_dict (get_common_mistakes 5 ?a) = get_common_mistakes 5 ?a"
    using distinct_keys_get_common_mistakes [of 5 t0 calls]
    by (intro py_dict_distinct) simp
  have summary: "get_session_summary round2 round2_duration now ?a
     = Inr \<lparr>summary_total_messages = total_messages ?a,
            summary_corrections_made = corrections_made ?a,
            summary_accuracy_rate =
              (if total_messages ?a = 0 then 100 else round2 (accuracy_share ?a)),
            summary_session_duration_minutes = round2_duration ((now - session_start ?a) / 60),
            summary_common_mistakes = get_common_mistakes 5 ?a,
            summary_total_mistake_types = int (card (set ?cs))\<rparr>"
    unfolding get_session_summary_def Let_def get_accuracy_rate_value dict types
    by simp
  have sub: "set (get_common_mistakes 5 ?a) \<subseteq> counted ?cs ` set ?cs"
    unfolding five using set_take_subset [of 5 ?full] elems by simp
  have all: "set (get_common_mistakes 5 ?a) = counted ?cs ` set ?cs" if "card (set ?cs) \<le> 5"
    unfolding five using that len elems by simp
  have short: "length (get_common_mistakes 5 ?a) \<le> 5"
    unfolding five by simp
  show ?thesis
    using summary sub all short by blast
qed

theorem get_session_summary_top_five_witness:
  "card (set (category_log (tracker_after 0
      [LogMessage, LogMistake 1 ''a'' ''b'' ''grammar'', LogMessage,
       LogMistake 2 ''c'' ''d'' ''spelling''])))
     \<le> 5
   \<and> set (get_common_mistakes 5 (tracker_after 0
      [LogMessage, LogMistake 1 ''a'' ''b'' ''grammar'', LogMessage,
       LogMistake 2 ''c'' ''d'' ''spelling'']))
     = {(''grammar'', 1), (''spelling'', 1)}"
proof -
  let ?calls = "[LogMessage, LogMistake 1 ''a'' ''b'' ''grammar'', LogMessage,
       LogMistake 2 ''c'' ''d'' ''spelling'']"
  let ?cs = "category_log (tracker_after 0 ?calls)"
  have cs: "?cs = [''grammar'', ''spelling'']"
    by (simp add: category_log_def tracker_after_def run_calls_def init_analytics_def
        log_mistake_def log_message_def)
  have few: "card (set ?cs) \<le> 5"
    unfolding cs by simp
  have "set (get_common_mistakes 5 (tracker_after 0 ?calls)) = counted ?cs ` set ?cs"
    using get_session_summary_top_five [of round2_half_even round2_half_even 0 0 ?calls] few
    by blast
  also have "\<dots> = {(''grammar'', 1), (''spelling'', 1)}"
    unfolding cs by (simp add: counted_def)
  finally show ?thesis using few by simp
qed

section \<open>The reply of a chat turn\<close>







section \<open>The mistake that a chat turn logs\<close>


section \<open>The level that the assessment returns\<close>

lemma sublist_dropWhile:
  assumes "xs \<noteq> []" and "\<not> P (hd xs)"
  shows "sublist xs (dropWhile P s) \<longleftrightarrow> sublist xs s"
proof (induction s)
  case Nil
  show ?case by simp
next
  case (Cons a s)
  show ?case
  proof (cases "P a")
    case True
    have "\<not> prefix xs (a # s)"
    proof
      assume "prefix xs (a # s)"
      with assms(1) have "hd xs = a" by (cases xs) auto
      with assms(2) True show False by simp
    qed
    then have "sublist xs (a # s) \<longleftrightarrow> sublist xs s"
      by (simp add: sublist_Cons_right)
    with True Cons.IH show ?thesis by simp
  next
    case False
    then show ?thesis by simp
  qed
qed

lemma sublist_strip_with:
  assumes "xs \<noteq> []" and "\<not> P (hd xs)" and "\<not> P (last xs)"
  shows "sublist xs (strip_with P s) \<longleftrightarrow> sublist xs s"
proof -
  have r: "rev xs \<noteq> []" "\<not> P (hd (rev xs))"
    using assms(1,3) by (simp_all add: hd_rev)
  have "sublist xs (strip_with P s) \<longleftrightarrow>
        sublist (rev xs) (dropWhile P (rev (dropWhile P s)))"
    unfolding strip_with_def
    using sublist_rev [of "rev xs" "dropWhile P (rev (dropWhile P s))"]
    by simp
  also have "\<dots> \<longleftrightarrow> sublist (rev xs) (rev (dropWhile P s))"
    by (rule sublist_dropWhile [of "rev xs" P "rev (dropWhile P s)", OF r])
  also have "\<dots> \<longleftrightarrow> sublist xs (dropWhile P s)"
    by simp
  also have "\<dots> \<longleftrightarrow> sublist xs s"
    by (rule sublist_dropWhile [of xs P s, OF assms(1,2)])
  finally show ?thesis .
qed

lemma is_space_lower_char: "is_space (lower_char c) = is_space c"
  by (auto simp: is_space_def lower_char_def Let_def)

lemma py_lower_dropWhile: "py_lower (dropWhile is_space s) = dropWhile is_space (py_lower s)"
  by (induction s) (simp_all add: py_lower_def is_space_lower_char)

lemma py_lower_py_strip: "py_lower (py_strip s) = py_strip (py_lower s)"
proof -
  have rev: "py_lower (rev s) = rev (py_lower s)" for s
    by (simp add: py_lower_def rev_map)
  show ?thesis
    by (simp add: py_strip_def strip_with_def rev py_lower_dropWhile)
qed

text \<open>Stripping the text does not change whether it contains a name that neither
  begins nor ends with whitespace.\<close>

lemma contains_after_strip:
  assumes "name \<noteq> []" and "\<not> is_space (hd name)" and "\<not> is_space (last name)"
  shows "py_in name (py_lower (py_strip s)) \<longleftrightarrow> sublist name (py_lower s)"
proof -
  have "py_in name (py_lower (py_strip s)) \<longleftrightarrow> sublist name (strip_with is_space (py_lower s))"
    unfolding py_in_def py_lower_py_strip by (simp only: py_strip_def)
  also have "\<dots> \<longleftrightarrow> sublist name (py_lower s)"
    by (rule sublist_strip_with [of name is_space "py_lower s", OF assms])
  finally show ?thesis .
qed

lemma lower_names:
  "py_lower ''Beginner'' = ''beginner''"
  "py_lower ''Intermediate'' = ''intermediate''"
  "py_lower ''Advanced'' = ''advanced''"
  by code_simp+

lemma contains_level_after_strip:
  "py_in ''beginner'' (py_lower (py_strip s)) \<longleftrightarrow> sublist ''beginner'' (py_lower s)"
  "py_in ''intermediate'' (py_lower (py_strip s)) \<longleftrightarrow> sublist ''intermediate'' (py_lower s)"
  "py_in ''advanced'' (py_lower (py_strip s)) \<longleftrightarrow> sublist ''advanced'' (py_lower s)"
  by (rule contains_after_strip; simp add: is_space_def)+

text \<open>
  C4. \<open>assess_level\<close> asks the model for the level and looks for the names of the
  levels in the text it returns, without regard to case and in the order Beginner,
  Intermediate, Advanced. The first name that the text contains is returned and stored
  as the level of the user. If the text contains none of them, ``Intermediate'' is
  returned and the engine, the stored level included, is left as it was.
\<close>

theorem assess_level_first_contained_level:
  "let text = call_ollama post e (create_level_assessment_prompt user_message) (Some (3 / 10));
       contains = (\<lambda>name. sublist (py_lower name) (py_lower text))
   in assess_level post user_message e =
        (if contains ''Beginner''
         then (''Beginner'', e\<lparr>memory := (memory e)\<lparr>user_level := Some ''Beginner''\<rparr>\<rparr>)
         else if contains ''Intermediate''
         then (''Intermediate'', e\<lparr>memory := (memory e)\<lparr>user_level := Some ''Intermediate''\<rparr>\<rparr>)
         else if contains ''Advanced''
         then (''Advanced'', e\<lparr>memory := (memory e)\<lparr>user_level := Some ''Advanced''\<rparr>\<rparr>)
         else (''Intermediate'', e))"
  unfolding Let_def assess_level_def valid_levels_def
  by (simp add: lower_names contains_level_after_strip set_user_level_def)

theorem assess_level_first_contained_level_witness:
  "assess_level
     (\<lambda>request. Inr \<lparr>status_code = 200,
                      json_response = Inr ''This is definitely Beginner level writing''\<rparr>)
     ''me like apple'' (init_engine ''http://localhost:11434'' ''phi3:mini'' 500 (7 / 10) 0)
   = (''Beginner'',
      (init_engine ''http://localhost:11434'' ''phi3:mini'' 500 (7 / 10) 0)
        \<lparr>memory := (init_memory 10)\<lparr>user_level := Some ''Beginner''\<rparr>\<rparr>)
   \<and> assess_level
       (\<lambda>request. Inr \<lparr>status_code = 200, json_response = Inr ''Unclear / gibberish''\<rparr>)
       ''me like apple'' (init_engine ''http://localhost:11434'' ''phi3:mini'' 500 (7 / 10) 0)
     = (''Intermediate'', init_engine ''http://localhost:11434'' ''phi3:mini'' 500 (7 / 10) 0)"
proof -
  let ?e = "init_engine ''http://localhost:11434'' ''phi3:mini'' 500 (7 / 10) 0"
  let ?yes = "\<lambda>request :: generate_request.
      (Inr \<lparr>status_code = 200,
            json_response = Inr ''This is definitely Beginner level writing''\<rparr>
        :: request_exception + http_response)"
  let ?no = "\<lambda>request :: generate_request.
      (Inr \<lparr>status_code = 200, json_response = Inr ''Unclear / gibberish''\<rparr>
        :: request_exception + http_response)"
  have yes: "sublist ''beginner'' (py_lower ''This is definitely Beginner level writing'')"
    by code_simp
  have no: "\<not> sublist ''beginner'' (py_lower ''Unclear / gibberish'')"
    "\<not> sublist ''intermediate'' (py_lower ''Unclear / gibberish'')"
    "\<not> sublist ''advanced'' (py_lower ''Unclear / gibberish'')"
    by code_simp+
  have mem: "memory ?e = init_memory 10"
    by (simp add: init_engine_def)
  show ?thesis
    using assess_level_first_contained_level [of ?yes ?e "''me like apple''"]
          assess_level_first_contained_level [of ?no ?e "''me like apple''"]
    by (simp add: Let_def call_ollama_def lower_names yes no mem)
qed

section \<open>The reset of a session\<close>

text \<open>
  C6. \<open>reset_session\<close> of the engine empties the history and puts the tracker back
  into its initial state, with the time of the reset as the start of the session; the
  level of the user and the capacity of the memory are left as they were. The
  statistics read afterwards report no message, no correction, the accuracy rate 100,
  no conversation turn, and the level of the user that was stored before the reset.
\<close>

theorem engine_reset_session_keeps_user_level:
  "let e' = snd (engine_reset_session now e)
   in fst (engine_reset_session now e) = ''Session reset successfully!''
      \<and> history (memory e') = []
      \<and> analytics e' = init_analytics now
      \<and> user_level (memory e') = user_level (memory e)
      \<and> max_history (memory e') = max_history (memory e)
      \<and> get_stats round2 round2_duration later e' =
          Inr \<lparr>summary_total_messages = 0,
               summary_corrections_made = 0,
               summary_accuracy_rate = 100,
               summary_session_duration_minutes = round2_duration ((later - now) / 60),
               summary_common_mistakes = [],
               summary_total_mistake_types = 0,
               conversation_turns = 0,
               stats_user_level = user_level (memory e)\<rparr>"
  unfolding Let_def engine_reset_session_def
  by (simp add: clear_history_def reset_session_def init_analytics_def get_stats_def
      get_session_summary_def get_accuracy_rate_def get_common_mistakes_def
      sorted_by_count_reverse_def py_slice_to_def py_dict_def get_conversation_count_def
      get_user_level_def)

end
